theory Spec2Isabelle
  imports Complex_Main "HOL-Library.Sublist"
begin

section \<open>The operating system and the perf counter (counter.h)\<close>

text \<open>
  Exceptions and undefined reads are values. \<open>System_error\<close> is the
  \<^verbatim>\<open>std::system_error\<close> thrown by \<^verbatim>\<open>counter::start\<close> and \<^verbatim>\<open>counter::stop\<close>,
  \<open>Callback_failed\<close> an exception leaving one of the caller's callbacks,
  \<open>Out_of_bounds\<close> a \<^verbatim>\<open>std::vector\<close> subscript beyond the vector's size (undefined
  behaviour in C++, made a visible failure here), and \<open>Int_overflow\<close> the increment of
  a loop counter that holds the largest \<^verbatim>\<open>int\<close>, in a loop that could not end
  afterwards (see \<open>gather\<close> below).
\<close>

datatype error = System_error | Callback_failed | Out_of_bounds | Int_overflow

text \<open>
  The fields of \<^verbatim>\<open>struct perf_event_attr\<close> that \<^verbatim>\<open>init_event\<close> sets after the
  \<^verbatim>\<open>memset\<close>. The constants below are those of \<^verbatim>\<open>linux/perf_event.h\<close>.
\<close>

record perf_event_attr =
  attr_type :: int
  attr_size :: int
  attr_config :: int
  attr_disabled :: int
  attr_exclude_kernel :: int
  attr_exclude_hv :: int

definition PERF_TYPE_HARDWARE :: int where "PERF_TYPE_HARDWARE = 0"
definition PERF_TYPE_SOFTWARE :: int where "PERF_TYPE_SOFTWARE = 1"
definition PERF_COUNT_HW_INSTRUCTIONS :: int where "PERF_COUNT_HW_INSTRUCTIONS = 1"
definition PERF_COUNT_HW_REF_CPU_CYCLES :: int where "PERF_COUNT_HW_REF_CPU_CYCLES = 9"
definition PERF_COUNT_SW_CPU_CLOCK :: int where "PERF_COUNT_SW_CPU_CLOCK = 0"
definition PERF_COUNT_SW_TASK_CLOCK :: int where "PERF_COUNT_SW_TASK_CLOCK = 1"

datatype ioc = PERF_EVENT_IOC_RESET | PERF_EVENT_IOC_ENABLE | PERF_EVENT_IOC_DISABLE

text \<open>
  The system calls are an environment the program cannot see into: each one takes the
  state \<open>'w\<close> of the world outside the program and returns its result with the next
  state. \<open>sys_read\<close> is given the old content of the 8-byte buffer and returns the
  return value of \<^verbatim>\<open>read\<close> with the new content.
\<close>

record 'w os =
  sizeof_perf_event_attr :: int
  sys_perf_event_open :: "perf_event_attr \<Rightarrow> int \<Rightarrow> int \<Rightarrow> int \<Rightarrow> int \<Rightarrow> 'w \<Rightarrow> int \<times> 'w"
  sys_ioctl :: "int \<Rightarrow> ioc \<Rightarrow> int \<Rightarrow> 'w \<Rightarrow> int \<times> 'w"
  sys_read :: "int \<Rightarrow> int \<Rightarrow> 'w \<Rightarrow> (int \<times> int) \<times> 'w"

record counter =
  m_events :: "perf_event_attr list"
  m_fds :: "int list"
  m_counts :: "int list"

definition perf_event_open ::
  "'w os \<Rightarrow> perf_event_attr \<Rightarrow> int \<Rightarrow> int \<Rightarrow> int \<Rightarrow> int \<Rightarrow> 'w \<Rightarrow> int \<times> 'w" where
  "perf_event_open os hw_event pid cpu group_fd flags w =
     sys_perf_event_open os hw_event pid cpu group_fd flags w"

definition init_event :: "'w os \<Rightarrow> int \<Rightarrow> int \<Rightarrow> counter \<times> 'w \<Rightarrow> counter \<times> 'w" where
  "init_event os type config s =
     (case s of (c, w) \<Rightarrow>
        let pe = \<lparr>attr_type = type, attr_size = sizeof_perf_event_attr os,
                  attr_config = config, attr_disabled = 1,
                  attr_exclude_kernel = 1, attr_exclude_hv = 0\<rparr>;
            group = (if length (m_fds c) = 0 then -1 else m_fds c ! 0)
        in case perf_event_open os pe 0 (-1) group 0 w of
             (fd, w') \<Rightarrow>
               if fd > -1
               then (c\<lparr>m_events := m_events c @ [pe], m_fds := m_fds c @ [fd],
                        m_counts := m_counts c @ [0]\<rparr>, w')
               else (c, w'))"

definition counter_ctor :: "'w os \<Rightarrow> int list \<Rightarrow> int list \<Rightarrow> 'w \<Rightarrow> counter \<times> 'w" where
  "counter_ctor os sw_evts hw_evts w =
     foldl (\<lambda>s x. init_event os PERF_TYPE_HARDWARE x s)
       (foldl (\<lambda>s x. init_event os PERF_TYPE_SOFTWARE x s)
          (\<lparr>m_events = [], m_fds = [], m_counts = []\<rparr>, w) sw_evts)
       hw_evts"

definition get_counts :: "counter \<Rightarrow> int list" where
  "get_counts c = m_counts c"

definition get_status :: "counter \<Rightarrow> int \<Rightarrow> bool" where
  "get_status c i =
     (if i > 0 \<and> i < int (length (m_fds c)) then m_fds c ! nat i > -1 else False)"

definition get_counts_size :: "counter \<Rightarrow> nat" where
  "get_counts_size c = length (m_counts c)"

text \<open>
  The loops of \<^verbatim>\<open>start\<close> and \<^verbatim>\<open>stop\<close>, from index \<open>i\<close> on. An exception leaves the
  counter as the loop had it at the throw. The subscript \<^verbatim>\<open>m_counts[i]\<close> is checked
  against the size of \<^verbatim>\<open>m_counts\<close>, which the C++ does not do.
\<close>

function start_loop :: "'w os \<Rightarrow> nat \<Rightarrow> counter \<times> 'w \<Rightarrow> error option \<times> counter \<times> 'w" where
  "start_loop os i (c, w) =
     (if i < length (m_fds c) then
        (if m_fds c ! i > -1 then
           (case sys_ioctl os (m_fds c ! i) PERF_EVENT_IOC_RESET 0 w of
              (r1, w1) \<Rightarrow>
                if r1 < 0 then (Some System_error, c, w1)
                else (case sys_ioctl os (m_fds c ! i) PERF_EVENT_IOC_ENABLE 0 w1 of
                        (r2, w2) \<Rightarrow>
                          if r2 < 0 then (Some System_error, c, w2)
                          else if i < length (m_counts c)
                          then start_loop os (i + 1) (c\<lparr>m_counts := (m_counts c)[i := 0]\<rparr>, w2)
                          else (Some Out_of_bounds, c, w2)))
         else if i < length (m_counts c)
         then start_loop os (i + 1) (c\<lparr>m_counts := (m_counts c)[i := 0]\<rparr>, w)
         else (Some Out_of_bounds, c, w))
      else (None, c, w))"
  by pat_completeness auto
termination
  by (relation "measure (\<lambda>(os, i, c, w). length (m_fds c) - i)") auto

declare start_loop.simps [simp del]

definition start :: "'w os \<Rightarrow> counter \<times> 'w \<Rightarrow> error option \<times> counter \<times> 'w" where
  "start os s = start_loop os 0 s"

function stop_loop :: "'w os \<Rightarrow> nat \<Rightarrow> counter \<times> 'w \<Rightarrow> error option \<times> counter \<times> 'w" where
  "stop_loop os i (c, w) =
     (if i < length (m_fds c) then
        (if m_fds c ! i > -1 then
           (case sys_ioctl os (m_fds c ! i) PERF_EVENT_IOC_DISABLE 0 w of
              (r1, w1) \<Rightarrow>
                if r1 < 0 then (Some System_error, c, w1)
                else if i < length (m_counts c)
                then (case sys_read os (m_fds c ! i) (m_counts c ! i) w1 of
                        ((r2, v), w2) \<Rightarrow>
                          if r2 < 0
                          then (Some System_error, c\<lparr>m_counts := (m_counts c)[i := v]\<rparr>, w2)
                          else stop_loop os (i + 1) (c\<lparr>m_counts := (m_counts c)[i := v]\<rparr>, w2))
                else (Some Out_of_bounds, c, w1))
         else stop_loop os (i + 1) (c, w))
      else (None, c, w))"
  by pat_completeness auto
termination
  by (relation "measure (\<lambda>(os, i, c, w). length (m_fds c) - i)") auto

declare stop_loop.simps [simp del]

definition stop :: "'w os \<Rightarrow> counter \<times> 'w \<Rightarrow> error option \<times> counter \<times> 'w" where
  "stop os s = stop_loop os 0 s"


section \<open>Machine integers\<close>

text \<open>
  The type \<^verbatim>\<open>int\<close> has 32 bits. Its values are the integers from \<open>INT_MIN\<close> to
  \<open>INT_MAX\<close>, and an addition, subtraction or multiplication whose result leaves this
  range (undefined behaviour in C++) gives what the machine instruction gives, the
  result reduced modulo \<open>2^32\<close> into the range: \<open>wrap_int\<close>.
\<close>

definition INT_MIN :: int where "INT_MIN = - (2 ^ 31)"
definition INT_MAX :: int where "INT_MAX = 2 ^ 31 - 1"

definition wrap_int :: "int \<Rightarrow> int" where
  "wrap_int x = (x - INT_MIN) mod 2 ^ 32 + INT_MIN"

section \<open>Floating point\<close>

text \<open>
  The sampler computes in \<^verbatim>\<open>double\<close>. Its control flow sees the doubles only through
  the comparison \<^verbatim>\<open>beta <= m_beta_min\<close> and the cast \<^verbatim>\<open>(int)\<close>, so the sampler is
  written over an arbitrary arithmetic \<open>'d fpu\<close>: whatever is proved for every \<open>fp\<close>
  holds for IEEE doubles with rounding, whatever \<^verbatim>\<open>std::log\<close> returns and whatever the
  platform does on a cast that is out of range. \<open>fp_of_int\<close> is the conversion of an
  \<^verbatim>\<open>int\<close> or \<^verbatim>\<open>long long\<close> operand.
\<close>

record 'd fpu =
  fp_of_int :: "int \<Rightarrow> 'd"
  fp_add :: "'d \<Rightarrow> 'd \<Rightarrow> 'd"
  fp_sub :: "'d \<Rightarrow> 'd \<Rightarrow> 'd"
  fp_mul :: "'d \<Rightarrow> 'd \<Rightarrow> 'd"
  fp_div :: "'d \<Rightarrow> 'd \<Rightarrow> 'd"
  fp_neg :: "'d \<Rightarrow> 'd"
  fp_log :: "'d \<Rightarrow> 'd"
  fp_le :: "'d \<Rightarrow> 'd \<Rightarrow> bool"
  fp_to_int :: "'d \<Rightarrow> int"

text \<open>
  One arithmetic to run the sampler on: the special values of IEEE 754 with exact real
  arithmetic on the finite values (no rounding, no overflow to infinity, one zero, which
  divides like \<^verbatim>\<open>+0.0\<close>). The cast of a value outside the range of \<^verbatim>\<open>int\<close>, undefined
  in C++, gives \<^verbatim>\<open>INT_MIN\<close> as the x86-64 conversion instruction does. It serves to run
  the sampler on the concrete inputs further down; what is proved of all sessions is
  proved for every arithmetic.
\<close>

datatype dbl = Fin real | PInf | NInf | NaN

fun dbl_neg :: "dbl \<Rightarrow> dbl" where
  "dbl_neg (Fin x) = Fin (- x)"
| "dbl_neg PInf = NInf"
| "dbl_neg NInf = PInf"
| "dbl_neg NaN = NaN"

fun dbl_add :: "dbl \<Rightarrow> dbl \<Rightarrow> dbl" where
  "dbl_add (Fin x) (Fin y) = Fin (x + y)"
| "dbl_add NaN _ = NaN"
| "dbl_add _ NaN = NaN"
| "dbl_add PInf NInf = NaN"
| "dbl_add NInf PInf = NaN"
| "dbl_add PInf _ = PInf"
| "dbl_add _ PInf = PInf"
| "dbl_add NInf _ = NInf"
| "dbl_add _ NInf = NInf"

definition dbl_sub :: "dbl \<Rightarrow> dbl \<Rightarrow> dbl" where
  "dbl_sub a b = dbl_add a (dbl_neg b)"

definition signed_inf :: "bool \<Rightarrow> dbl" where
  "signed_inf positive = (if positive then PInf else NInf)"

fun dbl_mul :: "dbl \<Rightarrow> dbl \<Rightarrow> dbl" where
  "dbl_mul (Fin x) (Fin y) = Fin (x * y)"
| "dbl_mul NaN _ = NaN"
| "dbl_mul _ NaN = NaN"
| "dbl_mul (Fin x) PInf = (if x = 0 then NaN else signed_inf (0 < x))"
| "dbl_mul (Fin x) NInf = (if x = 0 then NaN else signed_inf (x < 0))"
| "dbl_mul PInf (Fin y) = (if y = 0 then NaN else signed_inf (0 < y))"
| "dbl_mul NInf (Fin y) = (if y = 0 then NaN else signed_inf (y < 0))"
| "dbl_mul PInf PInf = PInf"
| "dbl_mul NInf NInf = PInf"
| "dbl_mul PInf NInf = NInf"
| "dbl_mul NInf PInf = NInf"

fun dbl_div :: "dbl \<Rightarrow> dbl \<Rightarrow> dbl" where
  "dbl_div (Fin x) (Fin y) =
     (if y = 0 then (if x = 0 then NaN else signed_inf (0 < x)) else Fin (x / y))"
| "dbl_div NaN _ = NaN"
| "dbl_div _ NaN = NaN"
| "dbl_div (Fin x) PInf = Fin 0"
| "dbl_div (Fin x) NInf = Fin 0"
| "dbl_div PInf (Fin y) = signed_inf (0 \<le> y)"
| "dbl_div NInf (Fin y) = signed_inf (y < 0)"
| "dbl_div PInf PInf = NaN"
| "dbl_div PInf NInf = NaN"
| "dbl_div NInf PInf = NaN"
| "dbl_div NInf NInf = NaN"

fun dbl_log :: "dbl \<Rightarrow> dbl" where
  "dbl_log (Fin x) = (if 0 < x then Fin (ln x) else if x = 0 then NInf else NaN)"
| "dbl_log PInf = PInf"
| "dbl_log NInf = NaN"
| "dbl_log NaN = NaN"

fun dbl_le :: "dbl \<Rightarrow> dbl \<Rightarrow> bool" where
  "dbl_le (Fin x) (Fin y) = (x \<le> y)"
| "dbl_le NaN _ = False"
| "dbl_le _ NaN = False"
| "dbl_le NInf _ = True"
| "dbl_le _ PInf = True"
| "dbl_le PInf _ = False"
| "dbl_le _ NInf = False"

fun dbl_to_int :: "dbl \<Rightarrow> int" where
  "dbl_to_int (Fin x) =
     (if real_of_int INT_MIN - 1 < x \<and> x < real_of_int INT_MAX + 1
      then (if 0 \<le> x then \<lfloor>x\<rfloor> else \<lceil>x\<rceil>)
      else INT_MIN)"
| "dbl_to_int _ = INT_MIN"

definition ideal_fp :: "dbl fpu" where
  "ideal_fp = \<lparr>fp_of_int = (\<lambda>i. Fin (real_of_int i)), fp_add = dbl_add, fp_sub = dbl_sub,
                fp_mul = dbl_mul, fp_div = dbl_div, fp_neg = dbl_neg, fp_log = dbl_log,
                fp_le = dbl_le, fp_to_int = dbl_to_int\<rparr>"

section \<open>The collector (collector.h)\<close>

text \<open>
  The members of \<^verbatim>\<open>collector\<close> that are fixed once the constructor has run. The member
  \<^verbatim>\<open>m_counter\<close>, the only one that changes afterwards, travels with the world in the
  state \<open>counter \<times> 'w\<close> that every operation takes and returns. The members of type
  \<^verbatim>\<open>int\<close> hold values from \<open>INT_MIN\<close> to \<open>INT_MAX\<close>.
\<close>

record 'd collector =
  m_ctr_idx :: int
  m_alpha :: 'd
  m_beta_min :: 'd
  m_min_incr :: int
  m_max_incr :: int
  m_max_rounds :: int
  m_n_init :: int

definition PERF_SW_TASK_CLK :: int where "PERF_SW_TASK_CLK = 0"
definition PERF_SW_CPU_CLK :: int where "PERF_SW_CPU_CLK = 1"
definition PERF_HW_INSTR_CTR :: int where "PERF_HW_INSTR_CTR = 2"
definition PERF_HW_CYCLES_CLK :: int where "PERF_HW_CYCLES_CLK = 3"

text \<open>The two initializer lists the constructor hands to \<^verbatim>\<open>m_counter\<close>.\<close>

definition collector_sw_evts :: "int list" where
  "collector_sw_evts = [PERF_COUNT_SW_TASK_CLOCK, PERF_COUNT_SW_CPU_CLOCK]"

definition collector_hw_evts :: "int list" where
  "collector_hw_evts = [PERF_COUNT_HW_INSTRUCTIONS, PERF_COUNT_HW_REF_CPU_CYCLES]"

definition collector_ctor ::
  "'w os \<Rightarrow> 'd \<Rightarrow> 'd \<Rightarrow> int \<Rightarrow> int \<Rightarrow> int \<Rightarrow> int \<Rightarrow> 'w \<Rightarrow> 'd collector \<times> counter \<times> 'w" where
  "collector_ctor os alpha beta_min min_incr max_incr max_rounds n_init w =
     (case counter_ctor os collector_sw_evts collector_hw_evts w of
        (c, w') \<Rightarrow>
          let self = \<lparr>m_ctr_idx = -1, m_alpha = alpha, m_beta_min = beta_min,
                      m_min_incr = min_incr, m_max_incr = max_incr,
                      m_max_rounds = max_rounds, m_n_init = n_init\<rparr>;
              self = self\<lparr>m_ctr_idx := PERF_SW_TASK_CLK\<rparr>
          in (if get_status c PERF_HW_INSTR_CTR
              then self\<lparr>m_ctr_idx := PERF_HW_INSTR_CTR\<rparr> else self, c, w'))"

text \<open>
  The caller's callbacks \<^verbatim>\<open>start\<close>, \<^verbatim>\<open>stop\<close> and \<^verbatim>\<open>run\<close>: each acts on the world and
  may throw (\<open>Some e\<close>). The fourth callback, the updater \<^verbatim>\<open>u\<close>, comes with
  \<^verbatim>\<open>collect_for_input_size\<close> below.
\<close>

record 'w workload =
  t_start :: "int \<Rightarrow> 'w \<Rightarrow> error option \<times> 'w"
  t_stop :: "int \<Rightarrow> 'w \<Rightarrow> error option \<times> 'w"
  t_run :: "int \<Rightarrow> 'w \<Rightarrow> error option \<times> 'w"

definition collector_get_counts ::
  "'w os \<Rightarrow> 'w workload \<Rightarrow> int \<Rightarrow> counter \<times> 'w \<Rightarrow> (error + int list) \<times> counter \<times> 'w" where
  "collector_get_counts os wl N s =
     (case s of (c, w) \<Rightarrow>
       (case t_start wl N w of
          (Some e, w1) \<Rightarrow> (Inl e, c, w1)
        | (None, w1) \<Rightarrow>
           (case start os (c, w1) of
              (Some e, c2, w2) \<Rightarrow> (Inl e, c2, w2)
            | (None, c2, w2) \<Rightarrow>
               (case t_run wl N w2 of
                  (Some e, w3) \<Rightarrow> (Inl e, c2, w3)
                | (None, w3) \<Rightarrow>
                   (case stop os (c2, w3) of
                      (Some e, c4, w4) \<Rightarrow> (Inl e, c4, w4)
                    | (None, c4, w4) \<Rightarrow>
                       (case t_stop wl N w4 of
                          (Some e, w5) \<Rightarrow> (Inl e, c4, w5)
                        | (None, w5) \<Rightarrow> (Inr (get_counts c4), c4, w5)))))))"

text \<open>
  The local variables of \<^verbatim>\<open>collect_for_input_size\<close>. \<open>seen\<close> is not in the source: it
  lists the counts of the trials of the session so far, in order.
\<close>

record 'd locals =
  n :: int
  sum :: 'd
  L_hat :: int
  n_tot :: int
  beta :: 'd
  xbar :: 'd
  lam_hat :: 'd
  fac :: 'd
  seen :: "int list"

text \<open>
  The inner loop \<^verbatim>\<open>for (int i = 0; i <= n; ++i)\<close>, from \<open>i\<close> on. The increment
  \<^verbatim>\<open>++i\<close> overflows only at \<open>i = INT_MAX\<close>, which the loop reaches only when \<open>n\<close> is
  \<open>INT_MAX\<close>; the test \<^verbatim>\<open>i <= n\<close> would then hold of every value of \<open>i\<close> and the loop
  could not end. This one overflow is the failure \<open>Int_overflow\<close>.
\<close>

function gather ::
  "'d fpu \<Rightarrow> 'w os \<Rightarrow> 'w workload \<Rightarrow> 'd collector \<Rightarrow> int \<Rightarrow> int \<Rightarrow> 'd locals \<Rightarrow> counter \<times> 'w
   \<Rightarrow> (error + 'd locals) \<times> counter \<times> 'w" where
  "gather fp os wl self input_sz i st s =
     (if i \<le> n st then
        (case collector_get_counts os wl input_sz s of
           (Inl e, s') \<Rightarrow> (Inl e, s')
         | (Inr counts, s') \<Rightarrow>
             if 0 \<le> m_ctr_idx self \<and> m_ctr_idx self < int (length counts) then
               let cnt = counts ! nat (m_ctr_idx self) in
               if i < INT_MAX then
                 gather fp os wl self input_sz (i + 1)
                   (st\<lparr>sum := fp_add fp (sum st) (fp_of_int fp cnt),
                       L_hat := (if i = 0 \<or> cnt < L_hat st then cnt else L_hat st),
                       seen := seen st @ [cnt]\<rparr>) s'
               else (Inl Int_overflow, s')
             else (Inl Out_of_bounds, s'))
      else (Inr st, s))"
  by pat_completeness auto
termination
  by (relation "measure (\<lambda>(fp, os, wl, self, input_sz, i, st, s). nat (n st + 1 - i))") auto

declare gather.simps [simp del]

text \<open>The statistics computed after the trials of a round, up to the stop test.\<close>

definition estimate :: "'d fpu \<Rightarrow> 'd collector \<Rightarrow> 'd locals \<Rightarrow> 'd locals" where
  "estimate fp self st =
     (let st = st\<lparr>n_tot := wrap_int (n_tot st + n st)\<rparr>;
          st = st\<lparr>xbar := fp_div fp (sum st) (fp_of_int fp (n_tot st))\<rparr>;
          st = st\<lparr>lam_hat := fp_div fp (fp_of_int fp 1)
                                 (fp_sub fp (xbar st) (fp_of_int fp (L_hat st)))\<rparr>;
          st = st\<lparr>fac := fp_mul fp (fp_mul fp (fp_of_int fp (n_tot st)) (lam_hat st))
                             (fp_of_int fp (L_hat st))\<rparr>
      in st\<lparr>beta := fp_div fp (fp_neg fp (fp_log fp (m_alpha self))) (fac st)\<rparr>)"

text \<open>The choice of the next batch size, after a stop test that failed.\<close>

definition next_n :: "'d fpu \<Rightarrow> 'd collector \<Rightarrow> 'd locals \<Rightarrow> 'd locals" where
  "next_n fp self st =
     (let st = st\<lparr>fac := fp_mul fp (fp_mul fp (lam_hat st) (m_beta_min self))
                             (fp_of_int fp (L_hat st))\<rparr>;
          new_n = fp_to_int fp (fp_div fp (fp_neg fp (fp_log fp (m_alpha self))) (fac st))
      in if new_n < n_tot st then st\<lparr>n := m_min_incr self\<rparr>
         else let st = st\<lparr>n := wrap_int (new_n - n_tot st)\<rparr>
              in if n st > m_max_incr self then st\<lparr>n := m_max_incr self\<rparr>
                 else if n st < m_min_incr self then st\<lparr>n := m_min_incr self\<rparr>
                 else st)"

text \<open>
  The outer loop \<^verbatim>\<open>for (int i = 0; i < m_max_rounds; ++i)\<close>, from \<open>i\<close> on. It returns
  the local variables as they are at the end of each round it runs, in order; the last
  of them are the local variables at the end of the loop. Here \<^verbatim>\<open>++i\<close> follows
  \<^verbatim>\<open>i < m_max_rounds\<close> and cannot overflow.
\<close>

function rounds ::
  "'d fpu \<Rightarrow> 'w os \<Rightarrow> 'w workload \<Rightarrow> 'd collector \<Rightarrow> int \<Rightarrow> int \<Rightarrow> 'd locals \<Rightarrow> counter \<times> 'w
   \<Rightarrow> (error + 'd locals list) \<times> counter \<times> 'w" where
  "rounds fp os wl self input_sz i st s =
     (if i < m_max_rounds self then
        (case gather fp os wl self input_sz 0 st s of
           (Inl e, s') \<Rightarrow> (Inl e, s')
         | (Inr st1, s') \<Rightarrow>
             let st2 = estimate fp self st1 in
             if fp_le fp (beta st2) (m_beta_min self) then (Inr [st2], s')
             else
               let st3 = next_n fp self st2 in
               (case rounds fp os wl self input_sz (i + 1) st3 s' of
                  (Inl e, s'') \<Rightarrow> (Inl e, s'')
                | (Inr tr, s'') \<Rightarrow> (Inr (st3 # tr), s'')))
      else (Inr [], s))"
  by pat_completeness auto
termination
  by (relation "measure (\<lambda>(fp, os, wl, self, input_sz, i, st, s). nat (m_max_rounds self - i))")
    auto

declare rounds.simps [simp del]

definition init_locals :: "'d fpu \<Rightarrow> 'd collector \<Rightarrow> 'd locals" where
  "init_locals fp self =
     \<lparr>n = m_n_init self, sum = fp_of_int fp 0, L_hat = 0, n_tot = 0,
      beta = fp_add fp (m_beta_min self) (fp_of_int fp 1), xbar = fp_of_int fp 0,
      lam_hat = fp_of_int fp 0, fac = fp_of_int fp 0, seen = []\<rparr>"

text \<open>A session: the rounds of one input size, from the initial local variables.\<close>

definition session ::
  "'d fpu \<Rightarrow> 'w os \<Rightarrow> 'w workload \<Rightarrow> 'd collector \<Rightarrow> int \<Rightarrow> counter \<times> 'w
   \<Rightarrow> (error + 'd locals list) \<times> counter \<times> 'w" where
  "session fp os wl self input_sz s = rounds fp os wl self input_sz 0 (init_locals fp self) s"

text \<open>
  The updater \<^verbatim>\<open>u\<close> is the caller's fourth callback: it is given the report
  \<open>(input_sz, sum, L_hat, n_tot)\<close>, acts on the world and may throw.
\<close>

type_synonym 'd report = "int \<times> 'd \<times> int \<times> int"

type_synonym ('d, 'w) updater = "'d report \<Rightarrow> 'w \<Rightarrow> error option \<times> 'w"

definition collect_for_input_size ::
  "'d fpu \<Rightarrow> 'w os \<Rightarrow> 'w workload \<Rightarrow> ('d, 'w) updater \<Rightarrow> 'd collector \<Rightarrow> int \<Rightarrow> counter \<times> 'w
   \<Rightarrow> (error + 'd report) \<times> counter \<times> 'w" where
  "collect_for_input_size fp os wl u self input_sz s =
     (case session fp os wl self input_sz s of
        (Inl e, s') \<Rightarrow> (Inl e, s')
      | (Inr tr, c, w) \<Rightarrow>
          let st = last (init_locals fp self # tr);
              r = (input_sz, sum st, L_hat st, n_tot st)
          in (case u r w of
                (Some e, w') \<Rightarrow> (Inl e, c, w')
              | (None, w') \<Rightarrow> (Inr r, c, w')))"





section \<open>What the claims speak of\<close>


definition channels :: "counter \<Rightarrow> (int \<times> int) list" where
  "channels c = map (\<lambda>pe. (attr_type pe, attr_config pe)) (m_events c)"


inductive counter_reach :: "'w os \<Rightarrow> int list \<Rightarrow> int list \<Rightarrow> counter \<times> 'w \<Rightarrow> bool"
  for os :: "'w os" and sw_evts hw_evts :: "int list" where
  reach_ctor: "counter_reach os sw_evts hw_evts (counter_ctor os sw_evts hw_evts w)"
| reach_start:
    "counter_reach os sw_evts hw_evts s \<Longrightarrow> counter_reach os sw_evts hw_evts (snd (start os s))"
| reach_stop:
    "counter_reach os sw_evts hw_evts s \<Longrightarrow> counter_reach os sw_evts hw_evts (snd (stop os s))"
| reach_world:
    "counter_reach os sw_evts hw_evts (c, w) \<Longrightarrow> counter_reach os sw_evts hw_evts (c, w')"

text \<open>
  Of a session: the sum of a list of counts added to \<open>x\<close> one by one as
  \<^verbatim>\<open>sum += cnt\<close> does, the counts of the trials run between two states of the local
  variables, and what one round does to the local variables \<open>a\<close> it starts from, \<open>b\<close>
  being the local variables at its end, when \<^verbatim>\<open>n_tot + n\<close> does not overflow.
\<close>

definition add_counts :: "'d fpu \<Rightarrow> 'd \<Rightarrow> int list \<Rightarrow> 'd" where
  "add_counts fp x cs = foldl (\<lambda>x c. fp_add fp x (fp_of_int fp c)) x cs"

definition round_counts :: "'d locals \<Rightarrow> 'd locals \<Rightarrow> int list" where
  "round_counts a b = drop (length (seen a)) (seen b)"

definition round_rel :: "'d fpu \<Rightarrow> 'd locals \<Rightarrow> 'd locals \<Rightarrow> bool" where
  "round_rel fp a b \<longleftrightarrow>
     seen b = seen a @ round_counts a b \<and>
     int (length (round_counts a b)) = n a + 1 \<and>
     sum b = add_counts fp (sum a) (round_counts a b) \<and>
     n_tot b = n_tot a + n a"

text \<open>The integer part of the configuration surface of the specification.\<close>

definition valid_config :: "'d collector \<Rightarrow> bool" where
  "valid_config self \<longleftrightarrow>
     1 \<le> m_min_incr self \<and> m_min_incr self \<le> m_max_incr self \<and>
     1 \<le> m_max_rounds self \<and> 1 \<le> m_n_init self"

text \<open>
  Configurations and calls that stay within \<^verbatim>\<open>int\<close>. \<open>n_tot_fits\<close>: the largest value
  \<^verbatim>\<open>n_tot\<close> can reach in a session, \<open>n_init\<close> in the first round and at most
  \<open>max_incr\<close> in each later one, is an \<^verbatim>\<open>int\<close>. \<open>batches_fit\<close>: no batch size is
  \<open>INT_MAX\<close>, the one value at which the inner loop cannot end. \<open>sizes_fit\<close>: the last
  input size that \<^verbatim>\<open>collect(N, num_runs, ...)\<close> passes on, \<open>N * 2^(num_runs - 1)\<close>, is
  an \<^verbatim>\<open>int\<close>.
\<close>

definition n_tot_fits :: "'d collector \<Rightarrow> bool" where
  "n_tot_fits self \<longleftrightarrow>
     m_n_init self + (m_max_rounds self - 1) * m_max_incr self \<le> INT_MAX"








fun same_batches :: "'d locals list \<Rightarrow> 'd locals list \<Rightarrow> bool" where
  "same_batches (a # a' # as) (b # b' # bs) = (n a = n b \<and> same_batches (a' # as) (b' # bs))"
| "same_batches _ _ = True"

section \<open>A stub environment\<close>

text \<open>
  A world to run the program in: \<^verbatim>\<open>perf_event_open\<close> succeeds for the events that
  \<open>opens\<close> accepts and hands out descriptors in sequence, every \<^verbatim>\<open>ioctl\<close> returns
  \<open>ioctl_ret\<close>, and every channel read during trial number \<open>k\<close> of the world (from 0)
  yields \<open>counts k\<close>. The callbacks do nothing beyond \<^verbatim>\<open>stop\<close> marking the end of the
  trial; of the two updaters one returns and one throws.
\<close>

record stub_world =
  next_fd :: int
  trial :: nat

definition stub_os :: "(perf_event_attr \<Rightarrow> bool) \<Rightarrow> int \<Rightarrow> (nat \<Rightarrow> int) \<Rightarrow> stub_world os" where
  "stub_os opens ioctl_ret counts =
     \<lparr>sizeof_perf_event_attr = 128,
      sys_perf_event_open = (\<lambda>pe pid cpu group_fd flags w.
         if opens pe then (next_fd w, w\<lparr>next_fd := next_fd w + 1\<rparr>) else (-1, w)),
      sys_ioctl = (\<lambda>fd req arg w. (ioctl_ret, w)),
      sys_read = (\<lambda>fd buf w. ((8, counts (trial w)), w))\<rparr>"

definition stub_workload :: "stub_world workload" where
  "stub_workload =
     \<lparr>t_start = (\<lambda>N w. (None, w)),
      t_stop = (\<lambda>N w. (None, w\<lparr>trial := trial w + 1\<rparr>)),
      t_run = (\<lambda>N w. (None, w))\<rparr>"

definition stub_updater :: "('d, stub_world) updater" where
  "stub_updater = (\<lambda>r w. (None, w))"


definition stub_init :: stub_world where
  "stub_init = \<lparr>next_fd = 3, trial = 0\<rparr>"

definition stub_attr :: "int \<Rightarrow> int \<Rightarrow> perf_event_attr" where
  "stub_attr t c = \<lparr>attr_type = t, attr_size = 128, attr_config = c, attr_disabled = 1,
                     attr_exclude_kernel = 1, attr_exclude_hv = 0\<rparr>"

text \<open>
  The counter of a collector built in a stub world where all four channels open, every
  channel holding the count \<open>v\<close>, and that world after \<open>k\<close> trials.
\<close>

definition stub_counter :: "int \<Rightarrow> counter" where
  "stub_counter v =
     \<lparr>m_events = [stub_attr 1 1, stub_attr 1 0, stub_attr 0 1, stub_attr 0 9],
      m_fds = [3, 4, 5, 6], m_counts = [v, v, v, v]\<rparr>"

definition stub_after :: "nat \<Rightarrow> stub_world" where
  "stub_after k = \<lparr>next_fd = 7, trial = k\<rparr>"

text \<open>
  A session of two rounds: the two trials of the first round count 4, all later trials
  count 8, with \<open>alpha = exp (-3)\<close>, \<open>beta_min = 1/2\<close>, \<open>min_incr = max_incr = 1\<close>,
  \<open>max_rounds = 2\<close> and \<open>n_init = 1\<close>. \<open>demo_trace\<close> is what the session computes.
\<close>

definition demo_os :: "stub_world os" where
  "demo_os = stub_os (\<lambda>pe. True) 0 (\<lambda>k. if k < 2 then 4 else 8)"

definition demo_collector :: "dbl collector \<times> counter \<times> stub_world" where
  "demo_collector = collector_ctor demo_os (Fin (exp (- 3))) (Fin (1 / 2)) 1 1 2 1 stub_init"

definition demo_trace :: "dbl locals list" where
  "demo_trace =
     [\<lparr>n = 1, sum = Fin 8, L_hat = 4, n_tot = 1, beta = Fin 3, xbar = Fin 8,
       lam_hat = Fin (1 / 4), fac = Fin (1 / 2), seen = [4, 4]\<rparr>,
      \<lparr>n = 1, sum = Fin 24, L_hat = 8, n_tot = 2, beta = Fin (3 / 4), xbar = Fin 12,
       lam_hat = Fin (1 / 4), fac = Fin 1, seen = [4, 4, 8, 8]\<rparr>]"




text \<open>
  A world where no channel opens, and one where every channel but the hardware
  instruction count opens.
\<close>

definition no_channel_os :: "stub_world os" where
  "no_channel_os = stub_os (\<lambda>pe. False) 0 (\<lambda>k. 1000)"

definition no_instr_os :: "stub_world os" where
  "no_instr_os =
     stub_os (\<lambda>pe. \<not> (attr_type pe = PERF_TYPE_HARDWARE \<and>
                       attr_config pe = PERF_COUNT_HW_INSTRUCTIONS)) 0 (\<lambda>k. 1000)"

definition no_channel_collector :: "dbl collector \<times> counter \<times> stub_world" where
  "no_channel_collector =
     collector_ctor no_channel_os (Fin (5 / 100)) (Fin (5 / 100)) 10 1000 20 30 stub_init"

definition no_instr_collector :: "dbl collector \<times> counter \<times> stub_world" where
  "no_instr_collector =
     collector_ctor no_instr_os (Fin (5 / 100)) (Fin (5 / 100)) 10 1000 20 30 stub_init"

text \<open>A counter source that returns 0 for every trial.\<close>

definition zero_os :: "stub_world os" where
  "zero_os = stub_os (\<lambda>pe. True) 0 (\<lambda>k. 0)"

definition zero_collector :: "dbl collector \<times> counter \<times> stub_world" where
  "zero_collector =
     collector_ctor zero_os (Fin (5 / 100)) (Fin (5 / 100)) 1 1000 3 2 stub_init"








text \<open>
  A counter source that returns 1000 for every trial, under batch sizes of \<open>2^30\<close>:
  \<open>alpha = exp (-3)\<close>, \<open>beta_min = 2^-59\<close>, \<open>min_incr = max_incr = n_init = 2^30\<close>,
  \<open>max_rounds = 2\<close>.
\<close>

definition steady_os :: "stub_world os" where
  "steady_os = stub_os (\<lambda>pe. True) 0 (\<lambda>k. 1000)"

definition steady_collector :: "dbl collector \<times> counter \<times> stub_world" where
  "steady_collector =
     collector_ctor steady_os (Fin (exp (- 3))) (Fin (1 / 2 ^ 59)) (2 ^ 30) (2 ^ 30) 2 (2 ^ 30)
       stub_init"


text \<open>What the session of \<open>steady_collector\<close> computes in exact arithmetic.\<close>

definition steady_trace :: "dbl locals list" where
  "steady_trace =
     [\<lparr>n = 2 ^ 30, sum = Fin 1073741825000, L_hat = 1000, n_tot = 2 ^ 30,
       beta = Fin (3 / 2 ^ 60), xbar = Fin (134217728125 / 134217728),
       lam_hat = Fin (134217728 / 125), fac = Fin (1 / 2 ^ 29),
       seen = replicate (2 ^ 30 + 1) 1000\<rparr>,
      \<lparr>n = 2 ^ 30, sum = Fin 2147483650000, L_hat = 1000, n_tot = - (2 ^ 31),
       beta = Fin (6442450947 / 2 ^ 61), xbar = Fin (- (134217728125 / 134217728)),
       lam_hat = Fin (- (134217728 / 268435456125)),
       fac = Fin (- (1 / 1152921505143717888)),
       seen = replicate (2 ^ 30 + 1) 1000 @ replicate (2 ^ 30 + 1) 1000\<rparr>]"


section \<open>The counter\<close>












lemmas perf_consts = PERF_TYPE_HARDWARE_def PERF_TYPE_SOFTWARE_def PERF_COUNT_HW_INSTRUCTIONS_def
  PERF_COUNT_HW_REF_CPU_CYCLES_def PERF_COUNT_SW_CPU_CLOCK_def PERF_COUNT_SW_TASK_CLOCK_def
  PERF_SW_TASK_CLK_def PERF_SW_CPU_CLK_def PERF_HW_INSTR_CTR_def PERF_HW_CYCLES_CLK_def
  collector_sw_evts_def collector_hw_evts_def

lemma stub_ctor_all:
  "counter_ctor (stub_os (\<lambda>pe. True) r f) collector_sw_evts collector_hw_evts stub_init =
   (stub_counter 0, stub_after 0)"
  by (simp add: counter_ctor_def init_event_def perf_event_open_def stub_os_def stub_init_def
      perf_consts stub_attr_def stub_counter_def stub_after_def)





text \<open>
  Claim C6 fails on the code. With all four channels opened, the first one (index 0,
  descriptor 3) is usable, and \<^verbatim>\<open>get_status(0)\<close> is false: the test \<^verbatim>\<open>i > 0\<close>
  excludes index 0, while index 1 is reported usable.
\<close>

theorem get_status_first_channel:
  "m_fds (fst (counter_ctor (stub_os (\<lambda>pe. True) 0 (\<lambda>k. 1000))
       collector_sw_evts collector_hw_evts stub_init)) = [3, 4, 5, 6] \<and>
   get_status (fst (counter_ctor (stub_os (\<lambda>pe. True) 0 (\<lambda>k. 1000))
       collector_sw_evts collector_hw_evts stub_init)) 0 = False \<and>
   get_status (fst (counter_ctor (stub_os (\<lambda>pe. True) 0 (\<lambda>k. 1000))
       collector_sw_evts collector_hw_evts stub_init)) 1 = True"
  by (simp add: stub_ctor_all get_status_def stub_counter_def)

section \<open>Rounds and sessions\<close>

lemma wrap_int_id: "INT_MIN \<le> x \<Longrightarrow> x \<le> INT_MAX \<Longrightarrow> wrap_int x = x"
  by (simp add: wrap_int_def INT_MIN_def INT_MAX_def)

lemma gather_Inr:
  "gather fp os wl self N i st s = (Inr st', s') \<Longrightarrow>
   \<exists>cs. int (length cs) = max 0 (n st + 1 - i) \<and>
        st' = st\<lparr>sum := add_counts fp (sum st) cs, L_hat := L_hat st', seen := seen st @ cs\<rparr>"
proof (induction fp os wl self N i st s arbitrary: st' s' rule: gather.induct)
  case (1 fp os wl self N i st s)
  show ?case
  proof (cases "i \<le> n st")
    case False
    with "1.prems" have "st' = st" by (simp add: gather.simps)
    with False show ?thesis by (intro exI[of _ "[]"]) (simp add: add_counts_def)
  next
    case True
    obtain r s1 where g: "collector_get_counts os wl N s = (r, s1)"
      by (cases "collector_get_counts os wl N s")
    show ?thesis
    proof (cases r)
      case (Inl e)
      with "1.prems" True g show ?thesis by (simp add: gather.simps)
    next
      case (Inr counts)
      let ?cnt = "counts ! nat (m_ctr_idx self)"
      let ?st1 = "st\<lparr>sum := fp_add fp (sum st) (fp_of_int fp ?cnt),
                     L_hat := (if i = 0 \<or> ?cnt < L_hat st then ?cnt else L_hat st),
                     seen := seen st @ [?cnt]\<rparr>"
      have ok: "0 \<le> m_ctr_idx self \<and> m_ctr_idx self < int (length counts)"
        using "1.prems" True g Inr by (simp add: gather.simps split: if_splits)
      have lt: "i < INT_MAX"
        using "1.prems" True g Inr ok by (simp add: gather.simps Let_def split: if_splits)
      have rec: "gather fp os wl self N (i + 1) ?st1 s1 = (Inr st', s')"
        using "1.prems" True g Inr ok lt by (simp add: gather.simps Let_def)
      from "1.IH"[OF True g[symmetric] Inr ok refl lt rec]
      obtain cs where cs: "int (length cs) = max 0 (n ?st1 + 1 - (i + 1))"
        "st' = ?st1\<lparr>sum := add_counts fp (sum ?st1) cs, L_hat := L_hat st', seen := seen ?st1 @ cs\<rparr>"
        by blast
      show ?thesis
        using cs True by (intro exI[of _ "?cnt # cs"]) (simp add: add_counts_def)
    qed
  qed
qed

lemma gather_frame:
  assumes "gather fp os wl self N i st s = (Inr st', s')"
  shows "n st' = n st \<and> n_tot st' = n_tot st"
proof -
  from gather_Inr[OF assms] obtain cs where
    e: "st' = st\<lparr>sum := add_counts fp (sum st) cs, L_hat := L_hat st', seen := seen st @ cs\<rparr>"
    by blast
  have "n st' = n st" by (subst e) simp
  moreover have "n_tot st' = n_tot st" by (subst e) simp
  ultimately show ?thesis by simp
qed

lemma estimate_frame [simp]:
  "n (estimate fp self st) = n st"
  "sum (estimate fp self st) = sum st"
  "L_hat (estimate fp self st) = L_hat st"
  "seen (estimate fp self st) = seen st"
  "n_tot (estimate fp self st) = wrap_int (n_tot st + n st)"
  by (simp_all add: estimate_def Let_def)

lemma next_n_frame [simp]:
  "sum (next_n fp self st) = sum st"
  "L_hat (next_n fp self st) = L_hat st"
  "seen (next_n fp self st) = seen st"
  "n_tot (next_n fp self st) = n_tot st"
  "beta (next_n fp self st) = beta st"
  "xbar (next_n fp self st) = xbar st"
  "lam_hat (next_n fp self st) = lam_hat st"
  by (simp_all add: next_n_def Let_def)

lemma next_n_range:
  "m_min_incr self \<le> m_max_incr self \<Longrightarrow>
   m_min_incr self \<le> n (next_n fp self st) \<and> n (next_n fp self st) \<le> m_max_incr self"
  by (simp add: next_n_def Let_def)


lemma round_rel_after:
  assumes "st1 = st\<lparr>sum := add_counts fp (sum st) cs, L_hat := l, seen := seen st @ cs\<rparr>"
    and "int (length cs) = max 0 (n st + 1 - 0)" and "- 1 \<le> n st"
    and "INT_MIN \<le> n_tot st + n st" and "n_tot st + n st \<le> INT_MAX"
  shows "round_rel fp st (estimate fp self st1)"
    and "round_rel fp st (next_n fp self (estimate fp self st1))"
  using assms by (simp_all add: round_rel_def round_counts_def wrap_int_id)

lemma rounds_trace:
  assumes v: "1 \<le> m_min_incr self" "m_min_incr self \<le> m_max_incr self"
  shows "rounds fp os wl self N i st s = (Inr tr, s') \<Longrightarrow> 1 \<le> n st \<Longrightarrow> 0 \<le> n_tot st \<Longrightarrow>
         n_tot st + n st + (m_max_rounds self - i - 1) * m_max_incr self \<le> INT_MAX \<Longrightarrow>
         successively (round_rel fp) (st # tr) \<and> (\<forall>x \<in> set (st # tr). 1 \<le> n x)"
  using v
proof (induction fp os wl self N i st s arbitrary: tr s' rule: rounds.induct)
  case (1 fp os wl self N i st s)
  note r = "1.prems"(1) and n0 = "1.prems"(2) and t0 = "1.prems"(3) and bd = "1.prems"(4)
    and m1 = "1.prems"(5) and mm = "1.prems"(6)
  show ?case
  proof (cases "i < m_max_rounds self")
    case False
    with r n0 show ?thesis by (simp add: rounds.simps)
  next
    case True
    have k: "0 \<le> (m_max_rounds self - i - 1) * m_max_incr self"
      using True m1 mm by simp
    have lo: "INT_MIN \<le> n_tot st + n st" using n0 t0 by (simp add: INT_MIN_def)
    have hi: "n_tot st + n st \<le> INT_MAX" using bd k by simp
    obtain r0 s1 where g: "gather fp os wl self N 0 st s = (r0, s1)"
      by (cases "gather fp os wl self N 0 st s")
    show ?thesis
    proof (cases r0)
      case (Inl e)
      with r True g show ?thesis by (simp add: rounds.simps)
    next
      case (Inr st1)
      from gather_Inr[OF g[unfolded Inr]] obtain cs l where
        cs: "int (length cs) = max 0 (n st + 1 - 0)"
        "st1 = st\<lparr>sum := add_counts fp (sum st) cs, L_hat := l, seen := seen st @ cs\<rparr>"
        by blast
      have n1: "- 1 \<le> n st" using n0 by simp
      note rr = round_rel_after[OF cs(2) cs(1) n1 lo hi, of self]
      let ?st2 = "estimate fp self st1"
      have n2: "n ?st2 = n st" using cs(2) by simp
      have t2: "n_tot ?st2 = n_tot st + n st" using cs(2) lo hi by (simp add: wrap_int_id)
      show ?thesis
      proof (cases "fp_le fp (beta ?st2) (m_beta_min self)")
        case conv: True
        have "tr = [?st2]"
          using r True g Inr conv by (simp add: rounds.simps Let_def)
        then show ?thesis using rr(1) n2 n0 by simp
      next
        case nconv: False
        let ?st3 = "next_n fp self ?st2"
        obtain r' s2 where rec: "rounds fp os wl self N (i + 1) ?st3 s1 = (r', s2)"
          by (cases "rounds fp os wl self N (i + 1) ?st3 s1")
        have n3: "1 \<le> n ?st3" "n ?st3 \<le> m_max_incr self"
          using next_n_range[OF mm, of fp ?st2] m1 by simp_all
        have t3: "0 \<le> n_tot ?st3" using t2 n0 t0 by simp
        have b3: "n_tot ?st3 + n ?st3 + (m_max_rounds self - (i + 1) - 1) * m_max_incr self
                  \<le> INT_MAX"
        proof -
          have "n_tot ?st3 + n ?st3 + (m_max_rounds self - (i + 1) - 1) * m_max_incr self
                \<le> n_tot st + n st + (m_max_rounds self - i - 1) * m_max_incr self"
            using t2 n3(2) by (simp add: algebra_simps)
          with bd show ?thesis by simp
        qed
        show ?thesis
        proof (cases r')
          case (Inl e)
          with r True g Inr nconv rec show ?thesis
            by (simp add: rounds.simps Let_def)
        next
          case (Inr tr')
          have tr: "tr = ?st3 # tr'"
            using r True g \<open>r0 = Inr st1\<close> nconv rec Inr
            by (simp add: rounds.simps Let_def)
          from "1.IH"[OF True g[symmetric] \<open>r0 = Inr st1\<close> refl nconv refl
              rec[unfolded Inr] n3(1) t3 b3 m1 mm]
          have ih: "successively (round_rel fp) (?st3 # tr') \<and> (\<forall>x \<in> set (?st3 # tr'). 1 \<le> n x)" .
          show ?thesis using ih rr(2) tr n0 by simp
        qed
      qed
    qed
  qed
qed

lemma rounds_exit:
  "rounds fp os wl self N i st s = (Inr tr, s') \<Longrightarrow> i \<le> m_max_rounds self \<Longrightarrow>
   fp_le fp (beta (last (st # tr))) (m_beta_min self) \<or> int (length tr) = m_max_rounds self - i"
proof (induction fp os wl self N i st s arbitrary: tr s' rule: rounds.induct)
  case (1 fp os wl self N i st s)
  show ?case
  proof (cases "i < m_max_rounds self")
    case False
    with "1.prems" show ?thesis by (simp add: rounds.simps)
  next
    case True
    obtain r s1 where g: "gather fp os wl self N 0 st s = (r, s1)"
      by (cases "gather fp os wl self N 0 st s")
    show ?thesis
    proof (cases r)
      case (Inl e)
      with "1.prems" True g show ?thesis by (simp add: rounds.simps)
    next
      case (Inr st1)
      let ?st2 = "estimate fp self st1"
      show ?thesis
      proof (cases "fp_le fp (beta ?st2) (m_beta_min self)")
        case conv: True
        have "tr = [?st2]"
          using "1.prems"(1) True g Inr conv by (simp add: rounds.simps Let_def)
        then show ?thesis using conv by simp
      next
        case nconv: False
        let ?st3 = "next_n fp self ?st2"
        obtain r' s2 where rec: "rounds fp os wl self N (i + 1) ?st3 s1 = (r', s2)"
          by (cases "rounds fp os wl self N (i + 1) ?st3 s1")
        show ?thesis
        proof (cases r')
          case (Inl e)
          with "1.prems"(1) True g Inr nconv rec show ?thesis
            by (simp add: rounds.simps Let_def)
        next
          case (Inr tr')
          have tr: "tr = ?st3 # tr'"
            using "1.prems"(1) True g \<open>r = Inr st1\<close> nconv rec Inr
            by (simp add: rounds.simps Let_def)
          have le: "i + 1 \<le> m_max_rounds self" using True by simp
          from "1.IH"[OF True g[symmetric] \<open>r = Inr st1\<close> refl nconv refl rec[unfolded Inr] le]
          show ?thesis using tr by auto
        qed
      qed
    qed
  qed
qed

lemma rounds_nonempty:
  "rounds fp os wl self N i st s = (Inr tr, s') \<Longrightarrow> i < m_max_rounds self \<Longrightarrow> tr \<noteq> []"
  by (subst (asm) rounds.simps) (auto simp: Let_def split: prod.splits sum.splits if_splits)

lemma rounds_first:
  "rounds fp os wl self N i st s = (Inr tr, s') \<Longrightarrow> tr \<noteq> [] \<Longrightarrow>
   n_tot (hd tr) = wrap_int (n_tot st + n st)"
  by (subst (asm) rounds.simps)
     (auto simp: Let_def split: prod.splits sum.splits if_splits dest!: gather_frame)

lemma add_counts_append:
  "add_counts fp x (cs @ ds) = add_counts fp (add_counts fp x cs) ds"
  by (simp add: add_counts_def)

lemma successively_round_rel_total:
  "successively (round_rel fp) (a # tr) \<Longrightarrow>
   \<exists>cs. seen (last (a # tr)) = seen a @ cs \<and>
        int (length cs) = n_tot (last (a # tr)) - n_tot a + int (length tr) \<and>
        sum (last (a # tr)) = add_counts fp (sum a) cs"
proof (induction tr arbitrary: a)
  case Nil
  then show ?case by (simp add: add_counts_def)
next
  case (Cons b tr)
  from Cons.prems have ab: "round_rel fp a b" and rest: "successively (round_rel fp) (b # tr)"
    by simp_all
  from Cons.IH[OF rest] obtain cs where cs: "seen (last (b # tr)) = seen b @ cs"
    "int (length cs) = n_tot (last (b # tr)) - n_tot b + int (length tr)"
    "sum (last (b # tr)) = add_counts fp (sum b) cs" by blast
  let ?r = "round_counts a b"
  from ab have r: "seen b = seen a @ ?r" "int (length ?r) = n a + 1"
    "sum b = add_counts fp (sum a) ?r" "n_tot b = n_tot a + n a"
    by (simp_all add: round_rel_def)
  have 1: "seen (last (a # b # tr)) = seen a @ (?r @ cs)" using cs(1) r(1) by simp
  have 2: "int (length (?r @ cs)) = n_tot (last (a # b # tr)) - n_tot a + int (length (b # tr))"
    using cs(2) r(2,4) by simp
  have 3: "sum (last (a # b # tr)) = add_counts fp (sum a) (?r @ cs)"
    using cs(3) r(3) by (simp add: add_counts_append)
  from 1 2 3 show ?case by blast
qed


text \<open>
  In a valid configuration for which \<open>n_init + (max_rounds - 1) * max_incr\<close> is an
  \<^verbatim>\<open>int\<close>, no \<^verbatim>\<open>n_tot + n\<close> of a session overflows: every round adds its batch size,
  which is at least 1, to \<^verbatim>\<open>n_tot\<close>.
\<close>

lemma session_trace:
  assumes "valid_config self" and "n_tot_fits self"
    and "session fp os wl self N s = (Inr tr, s')"
  shows "successively (round_rel fp) (init_locals fp self # tr) \<and>
         (\<forall>x \<in> set (init_locals fp self # tr). 1 \<le> n x) \<and> tr \<noteq> []"
proof -
  let ?st = "init_locals fp self"
  have v: "1 \<le> m_min_incr self" "m_min_incr self \<le> m_max_incr self" "0 < m_max_rounds self"
    "1 \<le> m_n_init self"
    using assms(1) by (simp_all add: valid_config_def)
  have r: "rounds fp os wl self N 0 ?st s = (Inr tr, s')" using assms(3) by (simp add: session_def)
  have n0: "1 \<le> n ?st" using v(4) by (simp add: init_locals_def)
  have t0: "0 \<le> n_tot ?st" by (simp add: init_locals_def)
  have bd: "n_tot ?st + n ?st + (m_max_rounds self - 0 - 1) * m_max_incr self \<le> INT_MAX"
    using assms(2) by (simp add: n_tot_fits_def init_locals_def)
  have ne: "tr \<noteq> []" by (rule rounds_nonempty[OF r v(3)])
  from rounds_trace[OF v(1,2) r n0 t0 bd] ne show ?thesis by simp
qed

subsection \<open>Runs without failures\<close>












subsection \<open>Two confidence bounds, the same batch sizes\<close>








text \<open>
  The two sessions choose the same batch sizes whenever the configuration leaves no
  choice, \<open>min_incr = max_incr\<close>.
\<close>

lemma next_n_fixed:
  "m_min_incr self = m_max_incr self \<Longrightarrow> n (next_n fp self st) = m_min_incr self"
  by (simp add: next_n_def Let_def)

lemma rounds_fixed_batches:
  "rounds fp os wl self N i st s = (Inr tr, s') \<Longrightarrow> m_min_incr self = m_max_incr self \<Longrightarrow>
   \<forall>x \<in> set (butlast tr). n x = m_min_incr self"
proof (induction fp os wl self N i st s arbitrary: tr s' rule: rounds.induct)
  case (1 fp os wl self N i st s)
  show ?case
  proof (cases "i < m_max_rounds self")
    case False
    with "1.prems" show ?thesis by (simp add: rounds.simps)
  next
    case True
    obtain r s1 where g: "gather fp os wl self N 0 st s = (r, s1)"
      by (cases "gather fp os wl self N 0 st s")
    show ?thesis
    proof (cases r)
      case (Inl e)
      with "1.prems" True g show ?thesis by (simp add: rounds.simps)
    next
      case (Inr st1)
      let ?st2 = "estimate fp self st1"
      show ?thesis
      proof (cases "fp_le fp (beta ?st2) (m_beta_min self)")
        case conv: True
        have "tr = [?st2]"
          using "1.prems"(1) True g Inr conv by (simp add: rounds.simps Let_def)
        then show ?thesis by simp
      next
        case nconv: False
        let ?st3 = "next_n fp self ?st2"
        obtain r' s2 where rec: "rounds fp os wl self N (i + 1) ?st3 s1 = (r', s2)"
          by (cases "rounds fp os wl self N (i + 1) ?st3 s1")
        show ?thesis
        proof (cases r')
          case (Inl e)
          with "1.prems"(1) True g Inr nconv rec show ?thesis
            by (simp add: rounds.simps Let_def)
        next
          case (Inr tr')
          have tr: "tr = ?st3 # tr'"
            using "1.prems"(1) True g \<open>r = Inr st1\<close> nconv rec Inr
            by (simp add: rounds.simps Let_def)
          from "1.IH"[OF True g[symmetric] \<open>r = Inr st1\<close> refl nconv refl rec[unfolded Inr]
              "1.prems"(2)]
          have "\<forall>x \<in> set (butlast tr'). n x = m_min_incr self" .
          then show ?thesis using tr next_n_fixed[OF "1.prems"(2), of fp ?st2] by simp
        qed
      qed
    qed
  qed
qed

lemma same_batches_fixed:
  "(\<forall>x \<in> set (butlast tr1). n x = m) \<and> (\<forall>x \<in> set (butlast tr2). n x = m) \<longrightarrow>
   same_batches tr1 tr2"
proof (induction tr1 arbitrary: tr2)
  case Nil
  show ?case by simp
next
  case (Cons a t1)
  show ?case
  proof (cases t1)
    case Nil
    then show ?thesis by simp
  next
    case c1: (Cons a' as)
    show ?thesis
    proof (cases tr2)
      case Nil
      then show ?thesis by simp
    next
      case c2: (Cons b t2)
      show ?thesis
      proof (cases t2)
        case Nil
        with c1 c2 show ?thesis by simp
      next
        case c3: (Cons b' bs)
        have "same_batches (a # a' # as) (b # b' # bs) =
              (n a = n b \<and> same_batches (a' # as) (b' # bs))" by simp
        moreover have "(\<forall>x \<in> set (butlast (a # a' # as)). n x = m) \<and>
                       (\<forall>x \<in> set (butlast (b # b' # bs)). n x = m) \<longrightarrow>
                       n a = n b \<and> same_batches (a' # as) (b' # bs)"
          using Cons.IH[of "b' # bs"] c1 by auto
        ultimately show ?thesis using c1 c2 c3 by blast
      qed
    qed
  qed
qed

lemma sessions_fixed_batches:
  assumes "m_min_incr self = m_max_incr self"
    and "session fp os wl self N s = (Inr tr1, s1)"
    and "session fp os wl (self\<lparr>m_alpha := a2\<rparr>) N s = (Inr tr2, s2)"
  shows "same_batches tr1 tr2"
proof -
  have 1: "\<forall>x \<in> set (butlast tr1). n x = m_min_incr self"
    using rounds_fixed_batches[OF assms(2)[unfolded session_def] assms(1)] .
  have m: "m_min_incr (self\<lparr>m_alpha := a2\<rparr>) = m_max_incr (self\<lparr>m_alpha := a2\<rparr>)"
    using assms(1) by simp
  have 2: "\<forall>x \<in> set (butlast tr2). n x = m_min_incr self"
    using rounds_fixed_batches[OF assms(3)[unfolded session_def] m] by simp
  from 1 2 same_batches_fixed[of tr1 "m_min_incr self" tr2] show ?thesis by blast
qed

section \<open>Running the stub\<close>

lemma stub_start4:
  "start (stub_os opens 0 f) (\<lparr>m_events = es, m_fds = [3, 4, 5, 6], m_counts = [a, b, c, d]\<rparr>, w) =
   (None, \<lparr>m_events = es, m_fds = [3, 4, 5, 6], m_counts = [0, 0, 0, 0]\<rparr>, w)"
  by (simp add: start_def start_loop.simps stub_os_def)


lemma stub_stop4:
  "stop (stub_os opens 0 f) (\<lparr>m_events = es, m_fds = [3, 4, 5, 6], m_counts = [a, b, c, d]\<rparr>, w) =
   (None, \<lparr>m_events = es, m_fds = [3, 4, 5, 6],
            m_counts = [f (trial w), f (trial w), f (trial w), f (trial w)]\<rparr>, w)"
  by (simp add: stop_def stop_loop.simps stub_os_def)

lemma stub_trial4:
  "collector_get_counts (stub_os opens 0 f) stub_workload N
     (\<lparr>m_events = es, m_fds = [3, 4, 5, 6], m_counts = [a, b, c, d]\<rparr>, \<lparr>next_fd = k, trial = t\<rparr>) =
   (Inr [f t, f t, f t, f t],
    \<lparr>m_events = es, m_fds = [3, 4, 5, 6], m_counts = [f t, f t, f t, f t]\<rparr>,
    \<lparr>next_fd = k, trial = t + 1\<rparr>)"
  by (simp add: collector_get_counts_def stub_start4 stub_stop4 stub_workload_def get_counts_def)

lemma stub_collector:
  "collector_ctor (stub_os (\<lambda>pe. True) r f) al bm mi ma mr ni stub_init =
   (\<lparr>m_ctr_idx = 2, m_alpha = al, m_beta_min = bm, m_min_incr = mi, m_max_incr = ma,
     m_max_rounds = mr, m_n_init = ni\<rparr>, stub_counter 0, stub_after 0)"
  by (simp add: collector_ctor_def stub_ctor_all get_status_def PERF_HW_INSTR_CTR_def
      PERF_SW_TASK_CLK_def stub_counter_def)

lemma no_channel_collector_eq:
  "collector_ctor no_channel_os al bm mi ma mr ni stub_init =
   (\<lparr>m_ctr_idx = 0, m_alpha = al, m_beta_min = bm, m_min_incr = mi, m_max_incr = ma,
     m_max_rounds = mr, m_n_init = ni\<rparr>,
    \<lparr>m_events = [], m_fds = [], m_counts = []\<rparr>, stub_init)"
  by (simp add: collector_ctor_def counter_ctor_def init_event_def perf_event_open_def
      no_channel_os_def stub_os_def get_status_def perf_consts)

lemma no_instr_collector_eq:
  "collector_ctor no_instr_os al bm mi ma mr ni stub_init =
   (\<lparr>m_ctr_idx = 2, m_alpha = al, m_beta_min = bm, m_min_incr = mi, m_max_incr = ma,
     m_max_rounds = mr, m_n_init = ni\<rparr>,
    \<lparr>m_events = [stub_attr 1 1, stub_attr 1 0, stub_attr 0 9], m_fds = [3, 4, 5],
     m_counts = [0, 0, 0]\<rparr>, \<lparr>next_fd = 6, trial = 0\<rparr>)"
  by (simp add: collector_ctor_def counter_ctor_def init_event_def perf_event_open_def
      no_instr_os_def stub_os_def get_status_def perf_consts stub_attr_def stub_init_def)

lemmas run_simps = session_def init_locals_def rounds.simps gather.simps stub_trial4
  estimate_def next_n_def Let_def ideal_fp_def dbl_sub_def signed_inf_def INT_MIN_def INT_MAX_def
  wrap_int_def stub_collector stub_counter_def stub_after_def eval_nat_numeral




lemma demo_collector_eq:
  "demo_collector =
   (\<lparr>m_ctr_idx = 2, m_alpha = Fin (exp (- 3)), m_beta_min = Fin (1 / 2), m_min_incr = 1,
     m_max_incr = 1, m_max_rounds = 2, m_n_init = 1\<rparr>, stub_counter 0, stub_after 0)"
  by (simp add: demo_collector_def demo_os_def stub_collector)

lemma demo_valid: "valid_config (fst demo_collector)"
  by (simp add: demo_collector_eq valid_config_def)


lemma demo_session_eq:
  "session ideal_fp demo_os stub_workload (fst demo_collector) N (snd demo_collector) =
   (Inr demo_trace, stub_counter 8, stub_after 4)"
  by (simp add: demo_collector_def demo_os_def demo_trace_def run_simps)


lemma demo_n_tot_fits: "n_tot_fits (fst demo_collector)"
  by (simp add: n_tot_fits_def demo_collector_eq INT_MAX_def)




lemma zero_session_eq:
  "session ideal_fp zero_os stub_workload (fst zero_collector) 64 (snd zero_collector) =
   (Inr [\<lparr>n = 1, sum = Fin 0, L_hat = 0, n_tot = 2, beta = NaN, xbar = Fin 0, lam_hat = PInf,
          fac = NaN, seen = [0, 0, 0]\<rparr>,
         \<lparr>n = 1, sum = Fin 0, L_hat = 0, n_tot = 3, beta = NaN, xbar = Fin 0, lam_hat = PInf,
          fac = NaN, seen = [0, 0, 0, 0, 0]\<rparr>,
         \<lparr>n = 1, sum = Fin 0, L_hat = 0, n_tot = 4, beta = NaN, xbar = Fin 0, lam_hat = PInf,
          fac = NaN, seen = [0, 0, 0, 0, 0, 0, 0]\<rparr>],
    stub_counter 0, stub_after 7)"
  by (simp add: zero_collector_def zero_os_def run_simps)








text \<open>
  Over a source that returns the same count \<open>c\<close> for every trial the inner loop can be
  run for any number of trials at once.
\<close>

lemma ideal_ops:
  "fp_of_int ideal_fp = (\<lambda>i. Fin (real_of_int i))" "fp_add ideal_fp = dbl_add"
  "fp_sub ideal_fp = dbl_sub" "fp_mul ideal_fp = dbl_mul" "fp_div ideal_fp = dbl_div"
  "fp_neg ideal_fp = dbl_neg" "fp_log ideal_fp = dbl_log" "fp_le ideal_fp = dbl_le"
  "fp_to_int ideal_fp = dbl_to_int"
  by (simp_all add: ideal_fp_def)

lemma add_counts_const:
  "add_counts ideal_fp (Fin x) (replicate m c) = Fin (x + real m * real_of_int c)"
proof (induction m arbitrary: x)
  case 0
  show ?case by (simp add: add_counts_def)
next
  case (Suc m)
  have "add_counts ideal_fp (Fin x) (replicate (Suc m) c) =
        add_counts ideal_fp (Fin (x + real_of_int c)) (replicate m c)"
    by (simp add: add_counts_def ideal_fp_def)
  then show ?case by (simp add: Suc.IH algebra_simps)
qed

lemma stub_gather_const:
  assumes "m_ctr_idx self = 2" "n st < INT_MAX"
  shows "n st + 1 - i = int m \<Longrightarrow> 0 \<le> i \<Longrightarrow>
     gather fp (stub_os opens 0 (\<lambda>k. c)) stub_workload self N i st
       (\<lparr>m_events = es, m_fds = [3, 4, 5, 6], m_counts = [a, b, c', d]\<rparr>,
        \<lparr>next_fd = k, trial = t\<rparr>) =
     (Inr (st\<lparr>sum := add_counts fp (sum st) (replicate m c),
              L_hat := (if m = 0 then L_hat st
                        else if i = 0 \<or> c < L_hat st then c else L_hat st),
              seen := seen st @ replicate m c\<rparr>),
      \<lparr>m_events = es, m_fds = [3, 4, 5, 6],
        m_counts = (if m = 0 then [a, b, c', d] else [c, c, c, c])\<rparr>,
      \<lparr>next_fd = k, trial = t + m\<rparr>)"
  using assms
proof (induction m arbitrary: i st a b c' d t)
  case 0
  then have "\<not> i \<le> n st" by simp
  then show ?case by (subst gather.simps) (simp add: add_counts_def)
next
  case (Suc m)
  have le: "i \<le> n st" and lt: "i < INT_MAX" using Suc.prems by simp_all
  let ?st1 = "st\<lparr>sum := fp_add fp (sum st) (fp_of_int fp c),
                 L_hat := (if i = 0 \<or> c < L_hat st then c else L_hat st),
                 seen := seen st @ [c]\<rparr>"
  have step: "gather fp (stub_os opens 0 (\<lambda>k. c)) stub_workload self N i st
       (\<lparr>m_events = es, m_fds = [3, 4, 5, 6], m_counts = [a, b, c', d]\<rparr>,
        \<lparr>next_fd = k, trial = t\<rparr>) =
      gather fp (stub_os opens 0 (\<lambda>k. c)) stub_workload self N (i + 1) ?st1
       (\<lparr>m_events = es, m_fds = [3, 4, 5, 6], m_counts = [c, c, c, c]\<rparr>,
        \<lparr>next_fd = k, trial = t + 1\<rparr>)"
    using le lt Suc.prems(3)
    by (subst gather.simps) (simp add: stub_trial4 Let_def)
  have m: "n ?st1 + 1 - (i + 1) = int m" using Suc.prems(1) by simp
  have i1: "0 \<le> i + 1" using Suc.prems(2) by simp
  have n1: "n ?st1 < INT_MAX" using Suc.prems(4) by simp
  show ?case
    unfolding step
    by (subst Suc.IH[OF m i1 Suc.prems(3) n1])
       (use Suc.prems(2) in \<open>cases st; simp add: add_counts_def\<close>)
qed

lemma stub_gather_const0:
  assumes "m_ctr_idx self = 2" "0 \<le> n st" "n st < INT_MAX"
  shows "gather fp (stub_os opens 0 (\<lambda>k. c)) stub_workload self N 0 st
       (\<lparr>m_events = es, m_fds = [3, 4, 5, 6], m_counts = [a, b, c', d]\<rparr>,
        \<lparr>next_fd = k, trial = t\<rparr>) =
     (Inr (st\<lparr>sum := add_counts fp (sum st) (replicate (nat (n st + 1)) c), L_hat := c,
              seen := seen st @ replicate (nat (n st + 1)) c\<rparr>),
      \<lparr>m_events = es, m_fds = [3, 4, 5, 6], m_counts = [c, c, c, c]\<rparr>,
      \<lparr>next_fd = k, trial = t + nat (n st + 1)\<rparr>)"
proof -
  have m: "n st + 1 - 0 = int (nat (n st + 1))" using assms(2) by simp
  show ?thesis using assms(2) by (subst stub_gather_const[OF assms(1,3) m]) simp_all
qed



lemma steady_collector_eq:
  "steady_collector =
   (\<lparr>m_ctr_idx = 2, m_alpha = Fin (exp (- 3)), m_beta_min = Fin (1 / 2 ^ 59),
     m_min_incr = 2 ^ 30, m_max_incr = 2 ^ 30, m_max_rounds = 2, m_n_init = 2 ^ 30\<rparr>,
    stub_counter 0, stub_after 0)"
  by (simp add: steady_collector_def steady_os_def stub_collector)

lemma steady_valid: "valid_config (fst steady_collector)"
  by (simp add: steady_collector_eq valid_config_def)

lemma steady_session_eq:
  "session ideal_fp steady_os stub_workload (fst steady_collector) N (snd steady_collector) =
   (Inr steady_trace, stub_counter 1000, stub_after (2 ^ 31 + 2))"
  by (simp add: steady_collector_def steady_os_def steady_trace_def session_def init_locals_def
      rounds.simps stub_gather_const0 add_counts_const estimate_def next_n_def Let_def ideal_ops
      dbl_sub_def signed_inf_def INT_MIN_def INT_MAX_def wrap_int_def stub_collector
      stub_counter_def stub_after_def)

section \<open>The claims about the sampler\<close>

text \<open>
  Claim C1 fails on the code. The test \<^verbatim>\<open>i == 0\<close> that initializes \<^verbatim>\<open>L_hat\<close> reads
  the counter of the inner loop, which hides the counter of the rounds, so \<^verbatim>\<open>L_hat\<close>
  starts again from the first trial of every round. In the session below the counts
  are 4, 4 in the first round and 8, 8 in the second: \<^verbatim>\<open>L_hat\<close> is 4 after the first
  round and 8 after the second, and the updater receives 8, greater than the counts of
  the first round.
\<close>

theorem L_hat_restarts_each_round:
  "valid_config (fst demo_collector) \<and>
   fst (session ideal_fp demo_os stub_workload (fst demo_collector) 64 (snd demo_collector)) =
     Inr demo_trace \<and>
   map L_hat demo_trace = [4, 8] \<and> seen (last demo_trace) = [4, 4, 8, 8] \<and>
   fst (collect_for_input_size ideal_fp demo_os stub_workload stub_updater (fst demo_collector) 64
          (snd demo_collector)) = Inr (64, Fin 24, 8, 2)"
  by (simp add: demo_valid collect_for_input_size_def demo_session_eq stub_updater_def)
     (simp add: demo_trace_def)

text \<open>
  Claim C2. A counter source that returns the same count for every trial, here 0, makes
  the mean equal to the minimum after every round: \<^verbatim>\<open>xbar - L_hat\<close> is zero,
  \<^verbatim>\<open>lam_hat\<close> is the infinity of a division by zero, \<^verbatim>\<open>beta\<close> is not a number, and the
  comparison \<^verbatim>\<open>beta <= m_beta_min\<close> it reaches is false.
\<close>

theorem degenerate_estimate_reachable:
  "map (\<lambda>st. (xbar st, L_hat st, lam_hat st, beta st))
     (projr (fst (session ideal_fp zero_os stub_workload (fst zero_collector) 64
                    (snd zero_collector)))) =
     [(Fin 0, 0, PInf, NaN), (Fin 0, 0, PInf, NaN), (Fin 0, 0, PInf, NaN)] \<and>
   fp_sub ideal_fp (Fin 0) (fp_of_int ideal_fp 0) = Fin 0 \<and>
   fp_div ideal_fp (fp_of_int ideal_fp 1) (Fin 0) = PInf \<and>
   \<not> fp_le ideal_fp NaN (m_beta_min (fst zero_collector))"
  by (simp add: zero_session_eq)
     (simp add: ideal_fp_def dbl_sub_def signed_inf_def zero_collector_def zero_os_def
        stub_collector)

text \<open>
  Claim C3 as stated fails, in two ways. After the first round \<^verbatim>\<open>n_tot\<close> is
  \<^verbatim>\<open>n_init\<close>, not \<^verbatim>\<open>n_init + 1\<close>: in the first session below \<^verbatim>\<open>n_init\<close> is 1 and
  \<^verbatim>\<open>n_tot\<close> is 1 after the first round. And \<^verbatim>\<open>n_tot + n\<close> can overflow: in the second
  session, with \<open>n_init = min_incr = max_incr = 2^30\<close> and two rounds over a source that
  always counts 1000, \<^verbatim>\<open>n_tot\<close> is \<open>2^30\<close> after the first round and \<open>- 2^31\<close> after
  the second.
\<close>

theorem n_tot_after_first_round_counterexample:
  "valid_config (fst demo_collector) \<and>
   \<not> m_n_init (fst demo_collector) + 1 \<le>
      n_tot (hd (projr (fst (session ideal_fp demo_os stub_workload (fst demo_collector) 64
                               (snd demo_collector))))) \<and>
   valid_config (fst steady_collector) \<and>
   map n_tot (projr (fst (session ideal_fp steady_os stub_workload (fst steady_collector) 64
                            (snd steady_collector)))) = [2 ^ 30, - (2 ^ 31)]"
  by (simp add: demo_valid demo_session_eq steady_valid steady_session_eq)
     (simp add: demo_trace_def demo_collector_eq steady_trace_def)

text \<open>
  Claim C3, amended. For a valid configuration in which
  \<open>n_init + (max_rounds - 1) * max_incr\<close> does not exceed \<open>INT_MAX\<close>, in every session
  that reaches its end, \<^verbatim>\<open>n_tot\<close> is \<^verbatim>\<open>n_init\<close> after the first round and strictly
  greater after each round than before it. This holds for every floating-point
  arithmetic.
\<close>

theorem n_tot_strictly_increases:
  assumes "valid_config self" and "n_tot_fits self"
    and "session fp os wl self N s = (Inr tr, s')"
  shows "tr \<noteq> [] \<and> n_tot (hd tr) = m_n_init self \<and>
         successively (\<lambda>a b. n_tot a < n_tot b) (init_locals fp self # tr)"
proof -
  let ?st = "init_locals fp self"
  have v: "1 \<le> m_min_incr self" "m_min_incr self \<le> m_max_incr self" "0 < m_max_rounds self"
    "1 \<le> m_n_init self"
    using assms(1) by (simp_all add: valid_config_def)
  have r: "rounds fp os wl self N 0 ?st s = (Inr tr, s')" using assms(3) by (simp add: session_def)
  from session_trace[OF assms]
  have t: "successively (round_rel fp) (?st # tr)" "\<forall>x \<in> set (?st # tr). 1 \<le> n x"
    and ne: "tr \<noteq> []" by simp_all
  have k: "0 \<le> (m_max_rounds self - 1) * m_max_incr self" using v by simp
  have hi: "m_n_init self \<le> INT_MAX" using assms(2) k by (simp add: n_tot_fits_def)
  have lo: "INT_MIN \<le> m_n_init self" using v(4) by (simp add: INT_MIN_def)
  have first: "n_tot (hd tr) = m_n_init self"
    using rounds_first[OF r ne] wrap_int_id[OF lo hi] by (simp add: init_locals_def)
  have "successively (\<lambda>a b. n_tot a < n_tot b) (?st # tr)"
  proof (rule successively_mono[OF t(1)])
    fix a b assume "a \<in> set (?st # tr)" "b \<in> set (?st # tr)" "round_rel fp a b"
    with t(2) show "n_tot a < n_tot b" by (auto simp: round_rel_def)
  qed
  with ne first show ?thesis by simp
qed

theorem n_tot_strictly_increases_witness:
  "valid_config (fst demo_collector) \<and> n_tot_fits (fst demo_collector) \<and>
   session ideal_fp demo_os stub_workload (fst demo_collector) 64 (snd demo_collector) =
     (Inr demo_trace, stub_counter 8, stub_after 4) \<and>
   demo_trace \<noteq> [] \<and> n_tot (hd demo_trace) = m_n_init (fst demo_collector) \<and>
   successively (\<lambda>a b. n_tot a < n_tot b) (init_locals ideal_fp (fst demo_collector) # demo_trace)"
  using n_tot_strictly_increases [OF demo_valid demo_n_tot_fits demo_session_eq] demo_valid
    demo_n_tot_fits demo_session_eq
  by blast




text \<open>
  Claim C5 fails on the code. When no channel opens, the constructor returns as usual,
  with \<^verbatim>\<open>m_ctr_idx = 0\<close> and empty vectors, and the first trial of \<^verbatim>\<open>collect\<close> reads
  \<^verbatim>\<open>get_counts()[0]\<close> beyond the end of an empty vector. When only the hardware
  instruction count fails to open, \<^verbatim>\<open>get_status(2)\<close> is true of the channel that
  moved into position 2, the reference cycles, and that channel is selected instead of
  the task clock.
\<close>

theorem collector_ctor_without_channel:
  "no_channel_collector =
     (\<lparr>m_ctr_idx = 0, m_alpha = Fin (5 / 100), m_beta_min = Fin (5 / 100), m_min_incr = 10,
       m_max_incr = 1000, m_max_rounds = 20, m_n_init = 30\<rparr>,
      \<lparr>m_events = [], m_fds = [], m_counts = []\<rparr>, stub_init) \<and>
   PERF_SW_TASK_CLK = 0 \<and>
   fst (collector_get_counts no_channel_os stub_workload 64 (snd no_channel_collector)) = Inr [] \<and>
   fst (collect_for_input_size ideal_fp no_channel_os stub_workload stub_updater
          (fst no_channel_collector) 64 (snd no_channel_collector)) = Inl Out_of_bounds \<and>
   m_ctr_idx (fst no_instr_collector) = PERF_HW_INSTR_CTR \<and>
   channels (fst (snd no_instr_collector)) =
     [(PERF_TYPE_SOFTWARE, PERF_COUNT_SW_TASK_CLOCK), (PERF_TYPE_SOFTWARE, PERF_COUNT_SW_CPU_CLOCK),
      (PERF_TYPE_HARDWARE, PERF_COUNT_HW_REF_CPU_CYCLES)]"
  by (simp add: no_channel_collector_def no_instr_collector_def no_channel_collector_eq
      no_instr_collector_eq collect_for_input_size_def session_def rounds.simps gather.simps
      init_locals_def collector_get_counts_def start_def stop_def start_loop.simps stop_loop.simps
      stub_workload_def get_counts_def channels_def stub_attr_def perf_consts)

text \<open>
  Claim C7. At the end of a session either the last \<^verbatim>\<open>beta\<close> passed the test
  \<^verbatim>\<open>beta <= m_beta_min\<close>, or the session ran \<^verbatim>\<open>m_max_rounds\<close> rounds and the last
  \<^verbatim>\<open>beta\<close> did not pass it; exactly one of the two holds. The round budget is not
  negative. This holds for every floating-point arithmetic.
\<close>

theorem session_end_converged_or_exhausted:
  assumes "0 \<le> m_max_rounds self" and "session fp os wl self N s = (Inr tr, s')"
  shows "let fin = last (init_locals fp self # tr);
             converged = fp_le fp (beta fin) (m_beta_min self);
             exhausted = (int (length tr) = m_max_rounds self \<and> \<not> converged)
         in (converged \<or> exhausted) \<and> \<not> (converged \<and> exhausted)"
  using rounds_exit[OF assms(2)[unfolded session_def]] assms(1) by (auto simp: Let_def)

theorem session_end_converged_or_exhausted_witness:
  "0 \<le> m_max_rounds (fst demo_collector) \<and>
   session ideal_fp demo_os stub_workload (fst demo_collector) 64 (snd demo_collector) =
     (Inr demo_trace, stub_counter 8, stub_after 4) \<and>
   (let fin = last (init_locals ideal_fp (fst demo_collector) # demo_trace);
        converged = fp_le ideal_fp (beta fin) (m_beta_min (fst demo_collector));
        exhausted = (int (length demo_trace) = m_max_rounds (fst demo_collector) \<and> \<not> converged)
    in (converged \<or> exhausted) \<and> \<not> (converged \<and> exhausted)) \<and>
   \<not> fp_le ideal_fp (beta (last demo_trace)) (m_beta_min (fst demo_collector)) \<and>
   int (length demo_trace) = m_max_rounds (fst demo_collector)"
proof -
  have m: "0 \<le> m_max_rounds (fst demo_collector)" by (simp add: demo_collector_eq)
  have "\<not> fp_le ideal_fp (beta (last demo_trace)) (m_beta_min (fst demo_collector)) \<and>
   int (length demo_trace) = m_max_rounds (fst demo_collector)"
    by (simp add: demo_trace_def demo_collector_eq ideal_fp_def)
  with session_end_converged_or_exhausted [OF m demo_session_eq] m demo_session_eq
  show ?thesis by blast
qed




text \<open>
  Claim C9 as stated fails when \<^verbatim>\<open>n_tot + n\<close> overflows. With
  \<open>n_init = min_incr = max_incr = 2^30\<close> and two rounds over a source that always
  counts 1000, each round runs \<open>2^30 + 1\<close> trials; the session has run \<open>2^31 + 2\<close>
  trials at its end and reports \<open>n_tot = - 2^31\<close>, which is not the number of trials
  less the number of rounds.
\<close>

theorem trials_exceed_n_tot_counterexample:
  "valid_config (fst steady_collector) \<and>
   (let tr = projr (fst (session ideal_fp steady_os stub_workload (fst steady_collector) 64
                           (snd steady_collector)))
    in map (\<lambda>st. (n st, n_tot st, sum st, length (seen st))) tr =
         [(2 ^ 30, 2 ^ 30, Fin 1073741825000, 2 ^ 30 + 1),
          (2 ^ 30, - (2 ^ 31), Fin 2147483650000, 2 ^ 31 + 2)] \<and>
       int (length (seen (last tr))) \<noteq> n_tot (last tr) + int (length tr)) \<and>
   fst (collect_for_input_size ideal_fp steady_os stub_workload stub_updater
          (fst steady_collector) 64 (snd steady_collector)) =
     Inr (64, Fin 2147483650000, 1000, - (2 ^ 31))"
  by (simp add: steady_valid steady_session_eq collect_for_input_size_def stub_updater_def
      stub_counter_def)
     (simp add: steady_trace_def)

text \<open>
  Claim C9, amended. For a valid configuration in which
  \<open>n_init + (max_rounds - 1) * max_incr\<close> does not exceed \<open>INT_MAX\<close>, in every session
  that reaches its end, each round started with batch size \<open>n\<close> runs \<open>n + 1\<close> trials,
  adds their counts to \<^verbatim>\<open>sum\<close> and adds \<open>n\<close> to \<^verbatim>\<open>n_tot\<close>; so the trials of the
  session number the final \<^verbatim>\<open>n_tot\<close> plus the number of rounds, the final \<^verbatim>\<open>sum\<close> adds
  up the counts of all of them, and the updater is called with this \<^verbatim>\<open>sum\<close> and this
  \<^verbatim>\<open>n_tot\<close>. This holds for every floating-point arithmetic.
\<close>

theorem trials_exceed_n_tot:
  assumes "valid_config self" and "n_tot_fits self"
    and "session fp os wl self N (c, w) = (Inr tr, c', w')"
  shows "successively (round_rel fp) (init_locals fp self # tr) \<and>
         int (length (seen (last tr))) = n_tot (last tr) + int (length tr) \<and>
         n_tot (last tr) < int (length (seen (last tr))) \<and>
         sum (last tr) = add_counts fp (fp_of_int fp 0) (seen (last tr)) \<and>
         fst (collect_for_input_size fp os wl u self N (c, w)) =
           (case fst (u (N, sum (last tr), L_hat (last tr), n_tot (last tr)) w') of
              Some e \<Rightarrow> Inl e
            | None \<Rightarrow> Inr (N, sum (last tr), L_hat (last tr), n_tot (last tr)))"
proof -
  let ?st = "init_locals fp self"
  from session_trace[OF assms]
  have t: "successively (round_rel fp) (?st # tr)" and ne: "tr \<noteq> []" by simp_all
  from successively_round_rel_total[OF t] ne
  have "int (length (seen (last tr))) = n_tot (last tr) + int (length tr) \<and>
         sum (last tr) = add_counts fp (fp_of_int fp 0) (seen (last tr))"
    by (auto simp: init_locals_def)
  moreover have "fst (collect_for_input_size fp os wl u self N (c, w)) =
           (case fst (u (N, sum (last tr), L_hat (last tr), n_tot (last tr)) w') of
              Some e \<Rightarrow> Inl e
            | None \<Rightarrow> Inr (N, sum (last tr), L_hat (last tr), n_tot (last tr)))"
    using assms(3) ne
    by (simp add: collect_for_input_size_def Let_def split: prod.splits option.splits)
  ultimately show ?thesis using t ne by simp
qed

theorem trials_exceed_n_tot_witness:
  "valid_config (fst demo_collector) \<and> n_tot_fits (fst demo_collector) \<and>
   session ideal_fp demo_os stub_workload (fst demo_collector) 64 (stub_counter 0, stub_after 0) =
     (Inr demo_trace, stub_counter 8, stub_after 4) \<and>
   successively (round_rel ideal_fp) (init_locals ideal_fp (fst demo_collector) # demo_trace) \<and>
   int (length (seen (last demo_trace))) = n_tot (last demo_trace) + int (length demo_trace) \<and>
   n_tot (last demo_trace) < int (length (seen (last demo_trace))) \<and>
   sum (last demo_trace) = add_counts ideal_fp (fp_of_int ideal_fp 0) (seen (last demo_trace)) \<and>
   fst (collect_for_input_size ideal_fp demo_os stub_workload stub_updater (fst demo_collector) 64
          (stub_counter 0, stub_after 0)) =
     Inr (64, sum (last demo_trace), L_hat (last demo_trace), n_tot (last demo_trace)) \<and>
   length (seen (last demo_trace)) = 4 \<and> n_tot (last demo_trace) = 2 \<and> length demo_trace = 2"
proof -
  have s: "session ideal_fp demo_os stub_workload (fst demo_collector) 64
             (stub_counter 0, stub_after 0) = (Inr demo_trace, stub_counter 8, stub_after 4)"
    using demo_session_eq[of 64] by (simp add: demo_collector_eq)
  have "length (seen (last demo_trace)) = 4 \<and> n_tot (last demo_trace) = 2 \<and>
        length demo_trace = 2"
    by (simp add: demo_trace_def)
  with trials_exceed_n_tot [OF demo_valid demo_n_tot_fits s, of stub_updater] demo_valid
    demo_n_tot_fits s
  show ?thesis by (simp add: stub_updater_def)
qed

end
